theory Spec2Isabelle
  imports Main "HOL-Library.Word"
begin

section \<open>Game of Life on a bounded grid: the data model\<close>

text \<open>
  The program keeps its cells in \<^verbatim>\<open>bool cells[N_CELLS_ROW][N_CELLS_COL]\<close>, indexed
  \<^verbatim>\<open>cells[x][y]\<close> with the column \<open>x\<close> first. A grid is modelled as a function
  from the two indices to the cell's value, together with the two dimensions, which the
  functions below take as \<open>W\<close> (\<^verbatim>\<open>N_CELLS_ROW\<close>) and \<open>H\<close> (\<^verbatim>\<open>N_CELLS_COL\<close>). Only the
  values at \<open>x < W\<close>, \<open>y < H\<close> are cells of the array; an array that was never
  initialised is a grid about which nothing is known.
\<close>

type_synonym grid = "nat \<Rightarrow> nat \<Rightarrow> bool"

definition set_cell :: "grid \<Rightarrow> nat \<Rightarrow> nat \<Rightarrow> bool \<Rightarrow> grid" where
  "set_cell cells x y b = cells(x := (cells x)(y := b))"

text \<open>C's \<^verbatim>\<open>/\<close> and \<^verbatim>\<open>%\<close> on \<^verbatim>\<open>int\<close> truncate towards zero.\<close>

definition c_div :: "int \<Rightarrow> int \<Rightarrow> int" where
  "c_div a b = sgn a * sgn b * (\<bar>a\<bar> div \<bar>b\<bar>)"

definition c_mod :: "int \<Rightarrow> int \<Rightarrow> int" where
  "c_mod a b = sgn a * (\<bar>a\<bar> mod \<bar>b\<bar>)"

section \<open>The transition: \<^verbatim>\<open>updateCells\<close>\<close>

text \<open>
  The two innermost loops of \<^verbatim>\<open>updateCells\<close> (lines 113 to 120): \<open>dx\<close> and \<open>dy\<close> run
  over \<open>-1, 0, 1\<close>, an offset that leaves the grid is skipped with \<^verbatim>\<open>continue\<close>, and
  every other position adds its cell to the counter. Nothing skips \<open>dx = 0, dy = 0\<close>.
\<close>

definition neighbors_dy :: "nat \<Rightarrow> grid \<Rightarrow> nat \<Rightarrow> nat \<Rightarrow> int \<Rightarrow> int" where
  "neighbors_dy H cells xdx y n0 =
     fold (\<lambda>dy n. if int y + dy < 0 \<or> int y + dy \<ge> int H then n
                   else n + (if cells xdx (nat (int y + dy)) then 1 else 0))
          [-1, 0, 1] n0"

definition neighbors :: "nat \<Rightarrow> nat \<Rightarrow> grid \<Rightarrow> nat \<Rightarrow> nat \<Rightarrow> int" where
  "neighbors W H cells x y =
     fold (\<lambda>dx n. if int x + dx < 0 \<or> int x + dx \<ge> int W then n
                   else neighbors_dy H cells (nat (int x + dx)) y n)
          [-1, 0, 1] 0"

text \<open>The rule applied to one cell (lines 124 to 133): the value stored in \<^verbatim>\<open>newCells[x][y]\<close>.\<close>

definition new_cell :: "nat \<Rightarrow> nat \<Rightarrow> grid \<Rightarrow> nat \<Rightarrow> nat \<Rightarrow> bool" where
  "new_cell W H cells x y =
     (let n = neighbors W H cells x y in
      if cells x y then
        (if n < 3 then False else if n > 4 then False else True)
      else
        (if n = 3 then True else False))"

text \<open>
  The first loop nest fills the temporary array \<^verbatim>\<open>newCells\<close> from \<^verbatim>\<open>cells\<close>, row by row;
  the second copies it back. The temporary array starts uninitialised: what it holds is
  a parameter of the first loop nest, and \<open>fill_newCells_cell\<close> below shows that none
  of these values is left inside the grid, so that \<open>updateCells\<close> may start from any
  of them; it starts from dead cells.
\<close>

definition fill_newCells :: "nat \<Rightarrow> nat \<Rightarrow> grid \<Rightarrow> grid \<Rightarrow> grid" where
  "fill_newCells W H cells newCells =
     fold (\<lambda>y nc. fold (\<lambda>x nc. set_cell nc x y (new_cell W H cells x y)) [0..<W] nc)
          [0..<H] newCells"

definition copy_cells :: "nat \<Rightarrow> nat \<Rightarrow> grid \<Rightarrow> grid \<Rightarrow> grid" where
  "copy_cells W H newCells cells =
     fold (\<lambda>y cs. fold (\<lambda>x cs. set_cell cs x y (newCells x y)) [0..<W] cs)
          [0..<H] cells"

definition updateCells :: "nat \<Rightarrow> nat \<Rightarrow> grid \<Rightarrow> grid" where
  "updateCells W H cells = copy_cells W H (fill_newCells W H cells (\<lambda>_ _. False)) cells"

section \<open>Neighbourhoods, as the specification describes them\<close>

text \<open>
  The specification speaks of the Moore neighbourhood of a cell: the up to eight cells
  adjacent to it horizontally, vertically and diagonally, the cell itself excluded, and
  clipped at the border of the grid. \<open>span n k\<close> lists the indices below \<open>n\<close> at
  distance at most one from \<open>k\<close> (for \<open>k = 0\<close> the interval starts at \<open>0\<close>);
  \<open>window\<close> is the block of grid positions around a cell, the cell included;
  \<open>moore_neighbors\<close> counts the alive cells of the window other than the cell.
\<close>

definition span :: "nat \<Rightarrow> nat \<Rightarrow> nat list" where
  "span n k = filter (\<lambda>i. i < n) [k - 1..<k + 2]"

definition window :: "nat \<Rightarrow> nat \<Rightarrow> nat \<Rightarrow> nat \<Rightarrow> (nat \<times> nat) list" where
  "window W H x y = concat (map (\<lambda>i. map (\<lambda>j. (i, j)) (span H y)) (span W x))"

definition alive_in :: "grid \<Rightarrow> (nat \<times> nat) list \<Rightarrow> nat" where
  "alive_in cells ps = length (filter (\<lambda>p. cells (fst p) (snd p)) ps)"

definition moore_neighbors :: "nat \<Rightarrow> nat \<Rightarrow> grid \<Rightarrow> nat \<Rightarrow> nat \<Rightarrow> nat" where
  "moore_neighbors W H cells x y =
     alive_in cells (filter (\<lambda>p. p \<noteq> (x, y)) (window W H x y))"

text \<open>
  The canonical Game of Life (B3/S23) on the bounded grid, written from its usual
  statement: an alive cell survives with two or three alive neighbours, a dead cell is
  born with exactly three, and every other cell is dead in the next generation.
\<close>

definition conway_rule :: "bool \<Rightarrow> nat \<Rightarrow> bool" where
  "conway_rule alive n = (if alive then n = 2 \<or> n = 3 else n = 3)"

definition conway_step :: "nat \<Rightarrow> nat \<Rightarrow> grid \<Rightarrow> grid" where
  "conway_step W H cells x y =
     (if x < W \<and> y < H then conway_rule (cells x y) (moore_neighbors W H cells x y)
      else cells x y)"

section \<open>Results of the program's functions\<close>

text \<open>
  \<^verbatim>\<open>EXIT_SUCCESS\<close> is 0 and \<^verbatim>\<open>EXIT_FAILURE\<close> is non-zero. What the program prints to
  \<^verbatim>\<open>stderr\<close> is kept as a list of messages. A run of C code that writes outside an array,
  overflows an \<^verbatim>\<open>int\<close> or divides by zero has no defined result: it is \<open>Undefined\<close>.
\<close>

datatype exit_status = EXIT_SUCCESS | EXIT_FAILURE

datatype message =
    Too_many_arguments
  | Screen_not_multiple_of_cell
  | Simulation_fps_too_high
  | Could_not_open_file string
  | Unknown_character char

datatype 'a outcome = Undefined | Returns 'a

definition newline :: char where
  "newline = CHR 0x0A"

definition INT_MAX :: nat where
  "INT_MAX = 2147483647"

section \<open>Reading the initial grid: \<^verbatim>\<open>readInput\<close>\<close>

text \<open>
  The loop of \<^verbatim>\<open>readInput\<close> (lines 190 to 207), over the characters that \<^verbatim>\<open>fgetc\<close> has
  still to deliver, with the loop variables \<open>x\<close>, \<open>y\<close> and the array.

  \<^item> \<^verbatim>\<open>fgetc\<close> returns an \<^verbatim>\<open>int\<close>, the program stores it in \<^verbatim>\<open>char c\<close> and compares \<open>c\<close>
    with \<^verbatim>\<open>EOF\<close>, which is \<open>-1\<close>. \<^verbatim>\<open>char\<close> is taken to be the signed 8-bit type of the
    x86 ABIs (with an unsigned \<^verbatim>\<open>char\<close> the comparison never ends the loop and every
    file, at its end, runs into the last branch). The byte \<open>0xFF\<close> then converts to
    \<open>-1\<close> and ends the loop exactly as the end of the file does.
  \<^item> \<^verbatim>\<open>cells[x][y]\<close> is written without a bounds check; a write with \<open>x \<ge> W\<close> or
    \<open>y \<ge> H\<close> is outside the array, and \<^verbatim>\<open>y++\<close> at \<^verbatim>\<open>INT_MAX\<close> overflows. (\<^verbatim>\<open>x++\<close> follows
    a write inside the array, so \<open>x < W\<close>, and \<open>W\<close> is the value of a C \<^verbatim>\<open>int\<close>.)
\<close>

fun readInput_loop ::
  "nat \<Rightarrow> nat \<Rightarrow> string \<Rightarrow> nat \<Rightarrow> nat \<Rightarrow> grid \<Rightarrow> (exit_status \<times> message list \<times> grid) outcome"
where
  "readInput_loop W H [] x y cells = Returns (EXIT_SUCCESS, [], cells)"
| "readInput_loop W H (c # cs) x y cells =
     (if c = CHR 0xFF then Returns (EXIT_SUCCESS, [], cells)
      else if c = newline then
        (if y = INT_MAX then Undefined else readInput_loop W H cs 0 (y + 1) cells)
      else if c = CHR ''#'' then
        (if x < W \<and> y < H then readInput_loop W H cs (x + 1) y (set_cell cells x y True)
         else Undefined)
      else if c = CHR ''.'' then
        (if x < W \<and> y < H then readInput_loop W H cs (x + 1) y (set_cell cells x y False)
         else Undefined)
      else Returns (EXIT_FAILURE, [Unknown_character c], cells))"

text \<open>
  The file system is a map from file names to contents; \<^verbatim>\<open>fopen\<close> fails on a name it
  does not hold.
\<close>

definition readInput ::
  "nat \<Rightarrow> nat \<Rightarrow> (string \<rightharpoonup> string) \<Rightarrow> grid \<Rightarrow> string \<Rightarrow> (exit_status \<times> message list \<times> grid) outcome"
where
  "readInput W H fs cells fileName =
     (case fs fileName of
        None \<Rightarrow> Returns (EXIT_FAILURE, [Could_not_open_file fileName], cells)
      | Some content \<Rightarrow> readInput_loop W H content 0 0 cells)"

text \<open>
  \<^verbatim>\<open>populateRandomCells\<close>: \<open>rnd k\<close> is the value of the \<open>k\<close>-th call of \<^verbatim>\<open>rand()\<close>; the
  loops run over \<open>x\<close> first and \<open>y\<close> inside.
\<close>

definition populateRandomCells :: "nat \<Rightarrow> nat \<Rightarrow> (nat \<Rightarrow> int) \<Rightarrow> grid \<Rightarrow> grid" where
  "populateRandomCells W H rnd cells =
     fold (\<lambda>x cs. fold (\<lambda>y cs. set_cell cs x y (c_mod (rnd (x * H + y)) 2 \<noteq> 0)) [0..<H] cs)
          [0..<W] cells"

section \<open>Configuration, rendering and the main loop\<close>

text \<open>
  The global constants of the program are the fields of a configuration; the derived
  constants are functions of it. \<open>source_config\<close> holds the values of the source.
\<close>

record config =
  SCR_WIDTH :: int
  SCR_HEIGHT :: int
  CELL_SIZE :: int
  FPS :: int
  SIMULATION_FPS :: int

definition N_CELLS_ROW :: "config \<Rightarrow> int" where
  "N_CELLS_ROW cfg = c_div (SCR_WIDTH cfg) (CELL_SIZE cfg)"

definition N_CELLS_COL :: "config \<Rightarrow> int" where
  "N_CELLS_COL cfg = c_div (SCR_HEIGHT cfg) (CELL_SIZE cfg)"

definition FRAMES_PER_ITERATION :: "config \<Rightarrow> int" where
  "FRAMES_PER_ITERATION cfg = c_div (FPS cfg) (SIMULATION_FPS cfg)"

definition source_config :: config where
  "source_config =
     \<lparr>SCR_WIDTH = 640, SCR_HEIGHT = 480, CELL_SIZE = 8, FPS = 240, SIMULATION_FPS = 20\<rparr>"

text \<open>
  \<^verbatim>\<open>drawScreen\<close> clears the surface and fills one square per alive cell, rows outside and
  columns inside; the model returns the squares in the order they are filled, each as
  \<open>(x, y, w, h)\<close>. The colour is the same constant for all of them and is left out.
\<close>

type_synonym rect = "int \<times> int \<times> int \<times> int"

definition drawScreen :: "int \<Rightarrow> nat \<Rightarrow> nat \<Rightarrow> grid \<Rightarrow> rect list" where
  "drawScreen cs W H cells =
     concat (map (\<lambda>y. concat (map (\<lambda>x. if cells x y then [(int x * cs, int y * cs, cs, cs)] else [])
                                    [0..<W]))
                 [0..<H])"

text \<open>
  What the loop takes from its environment in one frame: the events that
  \<^verbatim>\<open>SDL_PollEvent\<close> delivers and the two readings of \<^verbatim>\<open>SDL_GetTicks\<close>, which are \<^verbatim>\<open>Uint32\<close>
  milliseconds. What it does to its environment is recorded as a list of calls. The
  calls into SDL are taken to succeed.
\<close>

datatype keysym = SDLK_ESCAPE | SDLK_other

datatype sdl_event = SDL_QUIT | SDL_KEYDOWN keysym | SDL_other

record frame_input =
  events :: "sdl_event list"
  ticks_start :: "32 word"
  ticks_end :: "32 word"

datatype call =
    SDL_Init
  | SDL_CreateWindow int int
  | Stderr message
  | DrawScreen "rect list"
  | UpdateCells
  | SDL_Delay "32 word"

record loop_state =
  st_frame :: int
  st_cells :: grid
  st_quit :: bool
  st_calls :: "call list"

fun wants_quit :: "sdl_event \<Rightarrow> bool" where
  "wants_quit SDL_QUIT = True"
| "wants_quit (SDL_KEYDOWN k) = (k = SDLK_ESCAPE)"
| "wants_quit SDL_other = False"

definition poll_events :: "sdl_event list \<Rightarrow> bool \<Rightarrow> bool" where
  "poll_events evs q = fold (\<lambda>e q. if wants_quit e then True else q) evs q"

text \<open>
  Line 90: \<^verbatim>\<open>(frameTime > 1000 / FPS) ? 0 : 1000 / FPS - frameTime\<close>. \<^verbatim>\<open>frameTime\<close> is a
  \<^verbatim>\<open>Uint32\<close>, so the \<^verbatim>\<open>int\<close> \<^verbatim>\<open>1000 / FPS\<close> is converted to 32 bits unsigned for the
  comparison and for the subtraction.
\<close>

definition frame_delay :: "int \<Rightarrow> 32 word \<Rightarrow> 32 word" where
  "frame_delay fps frameTime =
     (if frameTime > word_of_int (c_div 1000 fps) then 0
      else word_of_int (c_div 1000 fps) - frameTime)"

text \<open>The body of the main loop (lines 74 to 90), one frame.\<close>

definition frame_body :: "config \<Rightarrow> frame_input \<Rightarrow> loop_state \<Rightarrow> loop_state" where
  "frame_body cfg inp s =
     (let W = nat (N_CELLS_ROW cfg);
          H = nat (N_CELLS_COL cfg);
          q = poll_events (events inp) (st_quit s);
          drawn = [DrawScreen (drawScreen (CELL_SIZE cfg) W H (st_cells s))];
          cells' = (if st_frame s = 0 then updateCells W H (st_cells s) else st_cells s);
          updated = (if st_frame s = 0 then [UpdateCells] else []);
          frameTime = ticks_end inp - ticks_start inp
      in s\<lparr>st_cells := cells', st_quit := q,
            st_calls := st_calls s @ drawn @ updated @ [SDL_Delay (frame_delay (FPS cfg) frameTime)]\<rparr>)"

text \<open>
  \<^verbatim>\<open>for (int frame = 0; !quit; frame = (frame+1) % FRAMES_PER_ITERATION)\<close>, run on the
  inputs of finitely many frames: the loop stops at the first test that finds \<open>quit\<close>
  set, and when the inputs are used up with \<open>quit\<close> unset the loop is still running.
\<close>

fun main_loop :: "config \<Rightarrow> frame_input list \<Rightarrow> loop_state \<Rightarrow> loop_state" where
  "main_loop cfg [] s = s"
| "main_loop cfg (inp # inps) s =
     (if st_quit s then s
      else main_loop cfg inps
             ((frame_body cfg inp s)
                \<lparr>st_frame := c_mod (st_frame (frame_body cfg inp s) + 1) (FRAMES_PER_ITERATION cfg)\<rparr>))"

datatype run =
    Undefined_behaviour
  | Exited exit_status "call list"
  | Still_running "call list"

text \<open>
  \<^verbatim>\<open>main\<close>. \<open>argv\<close> holds the program's name and its arguments, so \<^verbatim>\<open>argc\<close> is its
  length; \<open>stack\<close> is what the array \<^verbatim>\<open>cells\<close> holds before it is initialised. The
  derived constants divide by \<^verbatim>\<open>CELL_SIZE\<close> and \<^verbatim>\<open>SIMULATION_FPS\<close> before \<^verbatim>\<open>main\<close> starts,
  and an array has a positive size.
\<close>

definition main ::
  "config \<Rightarrow> string list \<Rightarrow> (string \<rightharpoonup> string) \<Rightarrow> (nat \<Rightarrow> int) \<Rightarrow> grid \<Rightarrow> frame_input list \<Rightarrow> run"
where
  "main cfg argv fs rnd stack inps =
     (if CELL_SIZE cfg = 0 \<or> SIMULATION_FPS cfg = 0 then Undefined_behaviour
      else if length argv > 2 then Exited EXIT_FAILURE [Stderr Too_many_arguments]
      else if c_mod (SCR_WIDTH cfg) (CELL_SIZE cfg) \<noteq> 0 \<or> c_mod (SCR_HEIGHT cfg) (CELL_SIZE cfg) \<noteq> 0
        then Exited EXIT_FAILURE [Stderr Screen_not_multiple_of_cell]
      else if FRAMES_PER_ITERATION cfg = 0 then Exited EXIT_FAILURE [Stderr Simulation_fps_too_high]
      else if N_CELLS_ROW cfg \<le> 0 \<or> N_CELLS_COL cfg \<le> 0 then Undefined_behaviour
      else
        (let W = nat (N_CELLS_ROW cfg);
             H = nat (N_CELLS_COL cfg);
             opened = [SDL_Init, SDL_CreateWindow (SCR_WIDTH cfg) (SCR_HEIGHT cfg)];
             init = (if length argv = 1 then Returns (EXIT_SUCCESS, [], populateRandomCells W H rnd stack)
                     else if length argv = 2 then readInput W H fs stack (argv ! 1)
                     else Returns (EXIT_SUCCESS, [], stack))
         in case init of
              Undefined \<Rightarrow> Undefined_behaviour
            | Returns (status, msgs, cells0) \<Rightarrow>
                if status \<noteq> EXIT_SUCCESS then Exited EXIT_FAILURE (opened @ map Stderr msgs)
                else
                  (let s = main_loop cfg inps
                             \<lparr>st_frame = 0, st_cells = cells0, st_quit = False,
                              st_calls = opened @ map Stderr msgs\<rparr>
                   in if st_quit s then Exited EXIT_SUCCESS (st_calls s) else Still_running (st_calls s))))"

section \<open>Example grids\<close>

text \<open>
  Three grids used below at the dimensions of the source, 80 by 60: three alive cells
  side by side in row 1, a cross of five alive cells around \<open>(1, 1)\<close>, and the grid
  with every cell alive.
\<close>

definition row_of_three :: grid where
  "row_of_three x y = (y = 1 \<and> x \<le> 2)"

definition plus_shape :: grid where
  "plus_shape x y = ((x = 1 \<and> y \<le> 2) \<or> (y = 1 \<and> x \<le> 2))"

definition full_grid :: grid where
  "full_grid x y = True"

section \<open>Input files, as the specification describes them\<close>

text \<open>
  The characters of the input format, and the cells that a text addresses: starting at
  column \<open>x\<close> of row \<open>y\<close>, every \<open>#\<close> and \<open>.\<close> addresses the current cell and moves one
  column on, a newline moves to column 0 of the next row, and the first character that is
  none of the three ends the reading.
\<close>

definition cell_chars :: "char set" where
  "cell_chars = {CHR ''#'', CHR ''.''}"

definition input_chars :: "char set" where
  "input_chars = {CHR ''#'', CHR ''.'', newline}"



text \<open>
  A text block: its lines, with a newline between one line and the next. A file holds
  the block as it is or with a newline after the last line as well.
\<close>

fun join_lines :: "string list \<Rightarrow> string" where
  "join_lines [] = []"
| "join_lines [r] = r"
| "join_lines (r # rs) = r @ newline # join_lines rs"

text \<open>
  The grid after the cells of one line, and of a sequence of lines, have been stored
  from column \<open>x\<close> of row \<open>y\<close> on.
\<close>

fun write_row :: "grid \<Rightarrow> string \<Rightarrow> nat \<Rightarrow> nat \<Rightarrow> grid" where
  "write_row cells [] x y = cells"
| "write_row cells (c # r) x y = write_row (set_cell cells x y (c = CHR ''#'')) r (x + 1) y"

fun write_rows :: "grid \<Rightarrow> string list \<Rightarrow> nat \<Rightarrow> grid" where
  "write_rows cells [] y = cells"
| "write_rows cells (r # rs) y = write_rows (write_row cells r 0 y) rs (y + 1)"

text \<open>
  A configuration is valid when every constant is positive, the screen's sides are
  multiples of the cell's, and the simulation rate is not above the frame rate.
\<close>

definition valid_config :: "config \<Rightarrow> bool" where
  "valid_config cfg =
     (0 < CELL_SIZE cfg \<and> 0 < SCR_WIDTH cfg \<and> 0 < SCR_HEIGHT cfg \<and>
      0 < SIMULATION_FPS cfg \<and> SIMULATION_FPS cfg \<le> FPS cfg \<and>
      SCR_WIDTH cfg mod CELL_SIZE cfg = 0 \<and> SCR_HEIGHT cfg mod CELL_SIZE cfg = 0)"

section \<open>Example files\<close>

text \<open>
  A file system with one file, the grid with every cell dead, and four file contents:
  a cell followed by a letter, the single byte \<open>0xFF\<close>, a line of 81 cells followed by a
  letter (one cell more than a row of the source's grid holds), and a block of 60 lines
  of 80 characters whose first column is alive.
\<close>

definition disk :: "string \<Rightarrow> string \<Rightarrow> (string \<rightharpoonup> string)" where
  "disk name content = Map.empty(name \<mapsto> content)"

definition blank :: grid where
  "blank x y = False"

definition cell_then_letter :: string where
  "cell_then_letter = ''#x''"

definition byte_FF :: string where
  "byte_FF = [CHR 0xFF]"

definition long_line_then_letter :: string where
  "long_line_then_letter = replicate 81 (CHR ''#'') @ ''x''"

definition first_column_block :: "string list" where
  "first_column_block = replicate 60 (CHR ''#'' # replicate 79 (CHR ''.''))"

text \<open>
  A generator whose every value is 0, and the input of a frame in which the window is
  closed and no time passes.
\<close>

definition no_rand :: "nat \<Rightarrow> int" where
  "no_rand k = 0"

definition quit_frame :: frame_input where
  "quit_frame = \<lparr>events = [SDL_QUIT], ticks_start = 0, ticks_end = 0\<rparr>"

section \<open>The schedule of the main loop, as the specification describes it\<close>

text \<open>
  The specification numbers the frames from 0 and lets \<open>N\<close> be the frame rate divided
  by the simulation rate. Every frame draws the grid; the frames whose number is a
  multiple of \<open>N\<close> then replace the grid by its next generation; every frame ends with a
  delay. \<open>generation cfg cells0 k\<close> is the grid that frame \<open>k\<close> starts with,
  \<open>frame_calls\<close> is what frame \<open>k\<close> does, and \<open>loop_calls\<close> is what the frames do one
  after the other, the first of them being frame \<open>k\<close>.
\<close>

definition period :: "config \<Rightarrow> nat" where
  "period cfg = nat (FRAMES_PER_ITERATION cfg)"

definition sees_quit :: "frame_input \<Rightarrow> bool" where
  "sees_quit inp = list_ex wants_quit (events inp)"

primrec generation :: "config \<Rightarrow> grid \<Rightarrow> nat \<Rightarrow> grid" where
  "generation cfg cells0 0 = cells0"
| "generation cfg cells0 (Suc k) =
     (if k mod period cfg = 0
      then updateCells (nat (N_CELLS_ROW cfg)) (nat (N_CELLS_COL cfg)) (generation cfg cells0 k)
      else generation cfg cells0 k)"

definition frame_calls :: "config \<Rightarrow> grid \<Rightarrow> nat \<Rightarrow> frame_input \<Rightarrow> call list" where
  "frame_calls cfg cells0 k inp =
     [DrawScreen (drawScreen (CELL_SIZE cfg) (nat (N_CELLS_ROW cfg)) (nat (N_CELLS_COL cfg))
                    (generation cfg cells0 k))] @
     (if k mod period cfg = 0 then [UpdateCells] else []) @
     [SDL_Delay (frame_delay (FPS cfg) (ticks_end inp - ticks_start inp))]"

fun loop_calls :: "config \<Rightarrow> grid \<Rightarrow> nat \<Rightarrow> frame_input list \<Rightarrow> call list" where
  "loop_calls cfg cells0 k [] = []"
| "loop_calls cfg cells0 k (inp # inps) =
     frame_calls cfg cells0 k inp @ loop_calls cfg cells0 (Suc k) inps"

fun is_DrawScreen :: "call \<Rightarrow> bool" where
  "is_DrawScreen (DrawScreen rs) = True"
| "is_DrawScreen c = False"

text \<open>
  The input of a frame that takes one millisecond and brings no event; that of a frame
  that takes ten milliseconds, during which the tick counter wraps around; and a run of
  24 frames without an event followed by one in which the window is closed.
\<close>

definition idle_frame :: frame_input where
  "idle_frame = \<lparr>events = [], ticks_start = 0, ticks_end = 1\<rparr>"

definition slow_frame :: frame_input where
  "slow_frame = \<lparr>events = [], ticks_start = 4294967290, ticks_end = 4\<rparr>"

definition short_run :: "frame_input list" where
  "short_run = replicate 24 idle_frame @ [quit_frame]"

section \<open>The transition: what each cell becomes\<close>

lemma fold_set_cell_row:
  "fold (\<lambda>x g. set_cell g x y (v x)) [0..<n] g =
     (\<lambda>a b. if a < n \<and> b = y then v a else g a b)"
  by (induction n arbitrary: g) (auto simp: set_cell_def fun_eq_iff)

lemma fold_set_cell_rows:
  "fold (\<lambda>y g. fold (\<lambda>x g. set_cell g x y (v x y)) [0..<n] g) [0..<m] g =
     (\<lambda>a b. if a < n \<and> b < m then v a b else g a b)"
  by (induction m arbitrary: g) (auto simp: fold_set_cell_row fun_eq_iff)

lemma fill_newCells_cell:
  "fill_newCells W H cells junk x y =
     (if x < W \<and> y < H then new_cell W H cells x y else junk x y)"
  by (simp add: fill_newCells_def fold_set_cell_rows)

lemma copy_cells_cell:
  "copy_cells W H newCells cells x y =
     (if x < W \<and> y < H then newCells x y else cells x y)"
  by (simp add: copy_cells_def fold_set_cell_rows)

lemma updateCells_cell:
  "updateCells W H cells x y =
     (if x < W \<and> y < H then new_cell W H cells x y else cells x y)"
  by (simp add: updateCells_def copy_cells_cell fill_newCells_cell)

subsection \<open>The counter of \<^verbatim>\<open>updateCells\<close> and the Moore neighbourhood\<close>

lemma span_0: "span n 0 = filter (\<lambda>i. i < n) [0, 1]"
  by (simp add: span_def upt_rec)

lemma span_Suc: "span n (Suc k) = filter (\<lambda>i. i < n) [k, Suc k, Suc (Suc k)]"
  by (simp add: span_def upt_rec)

lemma set_span: "set (span n k) = {i. i < n \<and> \<bar>int i - int k\<bar> \<le> 1}"
  by (auto simp: span_def)

lemma distinct_span: "distinct (span n k)"
  by (simp add: span_def)

lemma neighbors_dy_span:
  "neighbors_dy H cells i y n0 = n0 + int (length (filter (cells i) (span H y)))"
  by (cases y) (auto simp: neighbors_dy_def span_0 span_Suc nat_add_distrib)

lemma alive_in_window:
  "alive_in cells (window W H x y) = (\<Sum>i\<leftarrow>span W x. length (filter (cells i) (span H y)))"
  by (simp add: alive_in_def window_def filter_concat length_concat comp_def filter_map)

text \<open>
  The counter that \<^verbatim>\<open>updateCells\<close> computes is the number of alive cells in the window
  around the cell, the cell itself included.
\<close>

lemma neighbors_window: "neighbors W H cells x y = int (alive_in cells (window W H x y))"
  by (cases x) (auto simp: neighbors_def neighbors_dy_span alive_in_window span_0 span_Suc nat_add_distrib)

lemma set_window:
  "set (window W H x y) =
     {(i, j). i < W \<and> j < H \<and> \<bar>int i - int x\<bar> \<le> 1 \<and> \<bar>int j - int y\<bar> \<le> 1}"
  by (auto simp: window_def set_span)

lemma distinct_pairs:
  "distinct xs \<Longrightarrow> distinct ys \<Longrightarrow> distinct (concat (map (\<lambda>i. map (\<lambda>j. (i, j)) ys) xs))"
  by (induction xs) (auto simp: distinct_map inj_on_def)

lemma distinct_window: "distinct (window W H x y)"
  by (simp add: window_def distinct_pairs distinct_span)

lemma length_filter_except:
  "distinct ps \<Longrightarrow> p \<in> set ps \<Longrightarrow>
     length (filter P ps) = length (filter P (filter (\<lambda>q. q \<noteq> p) ps)) + (if P p then 1 else 0)"
proof (induction ps)
  case Nil
  then show ?case by simp
next
  case (Cons q ps)
  show ?case
  proof (cases "q = p")
    case True
    with Cons.prems have "p \<notin> set ps" by simp
    then have "filter (\<lambda>q. q \<noteq> p \<and> P q) ps = filter P ps"
      by (intro filter_cong) auto
    with True show ?thesis by simp
  next
    case False
    with Cons show ?thesis by simp
  qed
qed

lemma neighbors_moore:
  assumes "x < W" "y < H"
  shows "neighbors W H cells x y = int (moore_neighbors W H cells x y) + (if cells x y then 1 else 0)"
proof -
  have "(x, y) \<in> set (window W H x y)"
    using assms by (simp add: set_window)
  from length_filter_except [OF distinct_window this, of "\<lambda>p. cells (fst p) (snd p)"]
  show ?thesis
    by (simp add: neighbors_window alive_in_def moore_neighbors_def)
qed

lemma alive_in_card:
  "distinct ps \<Longrightarrow> alive_in cells ps = card {p \<in> set ps. cells (fst p) (snd p)}"
  by (simp add: alive_in_def distinct_length_filter Int_def conj_commute)

lemma length_window_corner: "length (filter (\<lambda>p. p \<noteq> (0, 0)) (window W H 0 0)) \<le> 3"
  by (auto simp: window_def span_0)

lemma moore_corner: "moore_neighbors W H cells 0 0 \<le> 3"
  unfolding moore_neighbors_def alive_in_def
  by (rule order_trans [OF length_filter_le length_window_corner])


subsection \<open>The rule\<close>

lemma new_cell_conway:
  assumes "x < W" "y < H"
  shows "new_cell W H cells x y = conway_rule (cells x y) (moore_neighbors W H cells x y)"
  using neighbors_moore [OF assms, of cells]
  by (auto simp: new_cell_def conway_rule_def Let_def)

text \<open>
  C1, as amended. For a cell \<open>(x, y)\<close> of the grid that is alive, the counter of
  \<^verbatim>\<open>updateCells\<close> is one more than the number of its alive Moore neighbours, because the
  counter includes the cell itself. The cell is alive in the next generation if and only
  if the counter is 3 or 4, that is, if and only if it has 2 or 3 alive Moore neighbours
  (itself excluded); it dies with fewer than 2 or more than 3.
\<close>

theorem updateCells_alive:
  assumes "x < W" and "y < H" and "cells x y"
  shows "neighbors W H cells x y = int (moore_neighbors W H cells x y) + 1 \<and>
         (updateCells W H cells x y \<longleftrightarrow>
            moore_neighbors W H cells x y = 2 \<or> moore_neighbors W H cells x y = 3) \<and>
         (updateCells W H cells x y \<longleftrightarrow>
            3 \<le> neighbors W H cells x y \<and> neighbors W H cells x y \<le> 4)"
  using assms neighbors_moore [of x W y H cells]
  by (auto simp: updateCells_cell new_cell_def Let_def)

lemma moore_row_of_three: "moore_neighbors 80 60 row_of_three 1 1 = 2"
  by (simp add: moore_neighbors_def window_def span_def alive_in_def row_of_three_def upt_rec)

lemma moore_plus_shape: "moore_neighbors 80 60 plus_shape 1 1 = 4"
  by (simp add: moore_neighbors_def window_def span_def alive_in_def plus_shape_def upt_rec)

lemma moore_above_row: "moore_neighbors 80 60 row_of_three 1 0 = 3"
  by (simp add: moore_neighbors_def window_def span_def alive_in_def row_of_three_def upt_rec)

theorem updateCells_alive_witness:
  "(1::nat) < 80 \<and> (1::nat) < 60 \<and> row_of_three 1 1 \<and>
   moore_neighbors 80 60 row_of_three 1 1 = 2 \<and> neighbors 80 60 row_of_three 1 1 = 3 \<and>
   updateCells 80 60 row_of_three 1 1"
proof -
  have alive: "row_of_three 1 1" by (simp add: row_of_three_def)
  from updateCells_alive [of 1 80 1 60 row_of_three] alive moore_row_of_three
  show ?thesis by simp
qed

text \<open>
  C1 as it is stated fails in both directions: in \<open>row_of_three\<close> the alive cell
  \<open>(1, 1)\<close> has 2 alive Moore neighbours and stays alive, and in \<open>plus_shape\<close> the alive
  cell \<open>(1, 1)\<close> has 4 alive Moore neighbours and dies.
\<close>

theorem updateCells_alive_counterexample:
  "row_of_three 1 1 \<and> moore_neighbors 80 60 row_of_three 1 1 = 2 \<and>
   updateCells 80 60 row_of_three 1 1 \<and>
   plus_shape 1 1 \<and> moore_neighbors 80 60 plus_shape 1 1 = 4 \<and>
   \<not> updateCells 80 60 plus_shape 1 1"
proof -
  have "row_of_three 1 1" "plus_shape 1 1"
    by (simp_all add: row_of_three_def plus_shape_def)
  moreover have "updateCells 80 60 row_of_three 1 1"
    using moore_row_of_three
    by (simp add: updateCells_cell new_cell_conway conway_rule_def row_of_three_def)
  moreover have "\<not> updateCells 80 60 plus_shape 1 1"
    using moore_plus_shape
    by (simp add: updateCells_cell new_cell_conway conway_rule_def plus_shape_def)
  ultimately show ?thesis
    using moore_row_of_three moore_plus_shape by simp
qed

text \<open>
  C2. The transition of \<^verbatim>\<open>updateCells\<close> is the step of the canonical Game of Life
  (B3/S23) on the bounded grid: as functions of the grid the two are equal. An alive cell
  survives exactly with 2 or 3 alive neighbours other than itself, and a dead cell is
  born exactly with 3. The counter of \<^verbatim>\<open>updateCells\<close> is the number of alive Moore
  neighbours plus one when the cell itself is alive, since the loops do not leave out
  \<open>dx = 0, dy = 0\<close>.
\<close>

theorem updateCells_is_conway_step:
  "updateCells W H cells = conway_step W H cells \<and>
   (x < W \<and> y < H \<longrightarrow>
      neighbors W H cells x y = int (moore_neighbors W H cells x y) + (if cells x y then 1 else 0))"
  by (auto simp: fun_eq_iff updateCells_cell conway_step_def new_cell_conway neighbors_moore)

theorem updateCells_is_conway_step_witness:
  "updateCells 80 60 row_of_three = conway_step 80 60 row_of_three \<and>
   conway_step 80 60 row_of_three 1 1 \<and> conway_step 80 60 row_of_three 1 0 \<and>
   \<not> conway_step 80 60 row_of_three 0 1 \<and>
   moore_neighbors 80 60 row_of_three 1 1 = 2 \<and> neighbors 80 60 row_of_three 1 1 = 3"
proof -
  have "moore_neighbors 80 60 row_of_three 0 1 = 1"
    by (simp add: moore_neighbors_def window_def span_def alive_in_def row_of_three_def upt_rec)
  moreover have "row_of_three 1 1"
    by (simp add: row_of_three_def)
  ultimately show ?thesis
    using updateCells_is_conway_step [of 80 60 row_of_three 1 1] moore_row_of_three moore_above_row
    by (simp add: conway_step_def conway_rule_def row_of_three_def)
qed

text \<open>
  C3. For a cell \<open>(x, y)\<close> of the grid that is dead, the cell is alive in the next
  generation if and only if exactly 3 of its Moore neighbours are alive; with any other
  number it stays dead.
\<close>

theorem updateCells_dead:
  assumes "x < W" and "y < H" and "\<not> cells x y"
  shows "updateCells W H cells x y \<longleftrightarrow> moore_neighbors W H cells x y = 3"
  using assms by (simp add: updateCells_cell new_cell_conway conway_rule_def)

theorem updateCells_dead_witness:
  "(1::nat) < 80 \<and> (0::nat) < 60 \<and> \<not> row_of_three 1 0 \<and>
   moore_neighbors 80 60 row_of_three 1 0 = 3 \<and> updateCells 80 60 row_of_three 1 0"
proof -
  have dead: "\<not> row_of_three 1 0" by (simp add: row_of_three_def)
  from updateCells_dead [of 1 80 0 60 row_of_three] dead moore_above_row
  show ?thesis by simp
qed

text \<open>
  C4, as amended. For every grid and every cell, the counter of \<^verbatim>\<open>updateCells\<close> is the
  number of alive cells among the positions \<open>(i, j)\<close> with \<open>i < W\<close>, \<open>j < H\<close> at
  distance at most one from the cell in each coordinate: positions outside the grid are
  not counted and nothing wraps around. The cell itself is one of these positions. At the
  corner \<open>(0, 0)\<close> the positions counted are \<open>(0, 0)\<close>, \<open>(0, 1)\<close>, \<open>(1, 0)\<close> and
  \<open>(1, 1)\<close>: at most 3 neighbours are counted besides the cell itself, and the counter
  is at most 4.
\<close>

theorem neighbors_clipped:
  "neighbors W H cells x y =
     int (card {(i, j). i < W \<and> j < H \<and> \<bar>int i - int x\<bar> \<le> 1 \<and> \<bar>int j - int y\<bar> \<le> 1 \<and> cells i j}) \<and>
   neighbors W H cells 0 0 - (if cells 0 0 then 1 else 0) \<le> 3 \<and>
   moore_neighbors W H cells 0 0 \<le> 3 \<and>
   neighbors W H cells 0 0 \<le> 4"
proof -
  have "{p \<in> set (window W H x y). cells (fst p) (snd p)} =
        {(i, j). i < W \<and> j < H \<and> \<bar>int i - int x\<bar> \<le> 1 \<and> \<bar>int j - int y\<bar> \<le> 1 \<and> cells i j}"
    by (auto simp: set_window)
  then have count: "neighbors W H cells x y =
     int (card {(i, j). i < W \<and> j < H \<and> \<bar>int i - int x\<bar> \<le> 1 \<and> \<bar>int j - int y\<bar> \<le> 1 \<and> cells i j})"
    by (simp add: neighbors_window alive_in_card [OF distinct_window])
  have corner: "neighbors W H cells 0 0 - (if cells 0 0 then 1 else 0) \<le> 3"
  proof (cases "0 < W \<and> 0 < H")
    case True
    then show ?thesis
      using neighbors_moore [of 0 W 0 H cells] moore_corner [of W H cells] by simp
  next
    case False
    then have "window W H 0 0 = []"
      by (auto simp: window_def span_0)
    then show ?thesis
      by (simp add: neighbors_window alive_in_def)
  qed
  then have "neighbors W H cells 0 0 \<le> 4"
    by (simp split: if_splits)
  with count corner moore_corner [of W H cells] show ?thesis
    by simp
qed

theorem neighbors_clipped_witness:
  "neighbors 80 60 full_grid 0 0 = 4 \<and>
   card {(i, j). i < (80::nat) \<and> j < (60::nat) \<and> \<bar>int i - int 0\<bar> \<le> 1 \<and> \<bar>int j - int 0\<bar> \<le> 1 \<and> full_grid i j} = 4 \<and>
   neighbors 80 60 full_grid 0 0 - (if full_grid 0 0 then 1 else 0) \<le> 3 \<and>
   moore_neighbors 80 60 full_grid 0 0 \<le> 3"
proof -
  have "neighbors 80 60 full_grid 0 0 = 4"
    by (simp add: neighbors_def neighbors_dy_def full_grid_def)
  with neighbors_clipped [of 80 60 full_grid 0 0] show ?thesis
    by simp
qed

text \<open>
  C4 as it is stated fails at the corner: in the grid with every cell alive, the counter
  that the transition uses for cell \<open>(0, 0)\<close> is 4, not at most 3, while the cell has 3
  alive neighbours.
\<close>

theorem neighbors_corner_counterexample:
  "full_grid 0 0 \<and> neighbors 80 60 full_grid 0 0 = 4 \<and> \<not> neighbors 80 60 full_grid 0 0 \<le> 3 \<and>
   moore_neighbors 80 60 full_grid 0 0 = 3"
proof -
  have "neighbors 80 60 full_grid 0 0 = 4"
    by (simp add: neighbors_def neighbors_dy_def full_grid_def)
  moreover have "moore_neighbors 80 60 full_grid 0 0 = 3"
    by (simp add: moore_neighbors_def window_def span_def alive_in_def full_grid_def upt_rec)
  ultimately show ?thesis
    by (simp add: full_grid_def)
qed

section \<open>Reading the initial grid: what \<^verbatim>\<open>readInput\<close> leaves in the array\<close>

subsection \<open>Lines and blocks of cells\<close>

lemma write_row_cell:
  "write_row cells r x y a b =
     (if b = y \<and> x \<le> a \<and> a < x + length r then r ! (a - x) = CHR ''#'' else cells a b)"
proof (induction r arbitrary: cells x)
  case Nil
  then show ?case by auto
next
  case (Cons c r)
  show ?case
    by (auto simp: Cons.IH set_cell_def nth_Cons' Suc_diff_Suc)
qed

lemma write_rows_cell:
  "\<forall>r\<in>set rs. length r = W \<Longrightarrow>
   write_rows cells rs y a b =
     (if y \<le> b \<and> b < y + length rs \<and> a < W then rs ! (b - y) ! a = CHR ''#'' else cells a b)"
proof (induction rs arbitrary: cells y)
  case Nil
  then show ?case by auto
next
  case (Cons r rs)
  then have "length r = W" and rest: "\<forall>r\<in>set rs. length r = W"
    by simp_all
  then show ?case
    by (auto simp: Cons.IH [OF rest] write_row_cell nth_Cons' Suc_diff_Suc)
qed

lemma cell_char_cases: "c \<in> cell_chars \<Longrightarrow> c = CHR ''#'' \<or> c = CHR ''.''"
  by (simp add: cell_chars_def)

lemma read_row:
  "set r \<subseteq> cell_chars \<Longrightarrow> x + length r \<le> W \<Longrightarrow> y < H \<Longrightarrow>
   readInput_loop W H (r @ rest) x y cells =
   readInput_loop W H rest (x + length r) y (write_row cells r x y)"
proof (induction r arbitrary: x cells)
  case Nil
  then show ?case by simp
next
  case (Cons c r)
  from Cons.prems have "c = CHR ''#'' \<or> c = CHR ''.''"
    by (simp add: cell_char_cases)
  moreover from Cons.prems have "readInput_loop W H (r @ rest) (Suc x) y (set_cell cells x y (c = CHR ''#'')) =
     readInput_loop W H rest (Suc x + length r) y (write_row (set_cell cells x y (c = CHR ''#'')) r (Suc x) y)"
    by (intro Cons.IH) auto
  ultimately show ?case
    using Cons.prems by (auto simp: newline_def)
qed

lemma read_rows:
  "\<forall>r\<in>set rs. length r = W \<and> set r \<subseteq> cell_chars \<Longrightarrow> y + length rs \<le> H \<Longrightarrow> H \<le> INT_MAX \<Longrightarrow>
   readInput_loop W H (concat (map (\<lambda>r. r @ [newline]) rs) @ rest) 0 y cells =
   readInput_loop W H rest 0 (y + length rs) (write_rows cells rs y)"
proof (induction rs arbitrary: y cells)
  case Nil
  then show ?case by simp
next
  case (Cons r rs)
  then have r: "set r \<subseteq> cell_chars" "0 + length r \<le> W" "y < H" and y: "y \<noteq> INT_MAX"
    by auto
  have nl: "newline \<noteq> CHR 0xFF"
    by (simp add: newline_def)
  have "readInput_loop W H (concat (map (\<lambda>r. r @ [newline]) (r # rs)) @ rest) 0 y cells =
        readInput_loop W H (newline # concat (map (\<lambda>r. r @ [newline]) rs) @ rest) (0 + length r) y
          (write_row cells r 0 y)"
    using read_row [OF r, of "newline # concat (map (\<lambda>r. r @ [newline]) rs) @ rest" cells]
    by simp
  also have "\<dots> = readInput_loop W H (concat (map (\<lambda>r. r @ [newline]) rs) @ rest) 0 (Suc y)
          (write_row cells r 0 y)"
    using y nl by simp
  also have "\<dots> = readInput_loop W H rest 0 (Suc y + length rs) (write_rows (write_row cells r 0 y) rs (Suc y))"
    using Cons.prems by (intro Cons.IH) auto
  finally show ?case by simp
qed

lemma join_lines_snoc:
  "rs \<noteq> [] \<Longrightarrow> join_lines rs = concat (map (\<lambda>r. r @ [newline]) (butlast rs)) @ last rs"
  by (induction rs rule: join_lines.induct) auto

lemma join_lines_newline:
  "rs \<noteq> [] \<Longrightarrow> join_lines rs @ [newline] = concat (map (\<lambda>r. r @ [newline]) rs)"
  by (induction rs rule: join_lines.induct) auto


lemma write_rows_snoc:
  "write_rows cells (rs @ [r]) y = write_row (write_rows cells rs y) r 0 (y + length rs)"
  by (induction rs arbitrary: cells y) auto

lemma read_block:
  assumes rows: "\<forall>r\<in>set rows. length r = W \<and> set r \<subseteq> cell_chars"
    and len: "length rows = H" and H: "H \<le> INT_MAX"
    and content: "content = join_lines rows \<or> content = join_lines rows @ [newline]"
  shows "readInput_loop W H content 0 0 cells = Returns (EXIT_SUCCESS, [], write_rows cells rows 0)"
proof (cases "rows = []")
  case True
  with content show ?thesis
    by (auto simp: newline_def INT_MAX_def)
next
  case False
  from content show ?thesis
  proof
    assume "content = join_lines rows @ [newline]"
    then have "content = concat (map (\<lambda>r. r @ [newline]) rows) @ []"
      using False by (simp add: join_lines_newline)
    then show ?thesis
      using read_rows [of rows W 0 H "[]" cells] rows len H by simp
  next
    assume c: "content = join_lines rows"
    let ?init = "butlast rows"
    have split: "rows = ?init @ [last rows]"
      using False by simp
    have init: "\<forall>r\<in>set ?init. length r = W \<and> set r \<subseteq> cell_chars"
      using rows by (auto dest: in_set_butlastD)
    have last: "set (last rows) \<subseteq> cell_chars" "0 + length (last rows) \<le> W"
      using rows False by (auto dest: last_in_set)
    have y: "length ?init < H"
      using False len by (cases rows) auto
    have "readInput_loop W H content 0 0 cells =
          readInput_loop W H (last rows @ []) 0 (0 + length ?init) (write_rows cells ?init 0)"
      using read_rows [OF init _ H, of 0 "last rows" cells] y c False
      by (simp add: join_lines_snoc)
    also have "\<dots> = Returns (EXIT_SUCCESS, [], write_row (write_rows cells ?init 0) (last rows) 0 (0 + length ?init))"
      using read_row [OF last, of "0 + length ?init" H "[]" "write_rows cells ?init 0"] y
      by simp
    also have "write_row (write_rows cells ?init 0) (last rows) 0 (0 + length ?init) = write_rows cells rows 0"
      using write_rows_snoc [of cells ?init "last rows" 0] split by simp
    finally show ?thesis .
  qed
qed

text \<open>
  C8. Let \<open>rows\<close> be \<open>H\<close> lines of \<open>W\<close> characters each, all of them \<open>#\<close> or \<open>.\<close>, and
  let the file hold these lines separated by newlines, with or without a newline after
  the last one. Then \<^verbatim>\<open>readInput\<close> returns \<^verbatim>\<open>EXIT_SUCCESS\<close>, prints nothing, and leaves a
  grid in which cell \<open>(x, y)\<close> is alive if and only if character \<open>x\<close> of line \<open>y\<close> is
  \<open>#\<close>, whatever the array held before. (\<open>H\<close> is the value of a C \<^verbatim>\<open>int\<close>.)
\<close>

theorem readInput_round_trip:
  assumes "length rows = H"
    and "\<forall>r\<in>set rows. length r = W \<and> set r \<subseteq> cell_chars"
    and "H \<le> INT_MAX"
    and "content = join_lines rows \<or> content = join_lines rows @ [newline]"
    and "fs name = Some content"
  shows "\<exists>g. readInput W H fs cells name = Returns (EXIT_SUCCESS, [], g) \<and>
             (\<forall>x<W. \<forall>y<H. g x y \<longleftrightarrow> rows ! y ! x = CHR ''#'')"
proof -
  have "readInput W H fs cells name = Returns (EXIT_SUCCESS, [], write_rows cells rows 0)"
    using assms by (simp add: readInput_def read_block)
  moreover have "\<forall>x<W. \<forall>y<H. write_rows cells rows 0 x y \<longleftrightarrow> rows ! y ! x = CHR ''#''"
    using assms(1,2) by (simp add: write_rows_cell [of rows W])
  ultimately show ?thesis by blast
qed

theorem readInput_round_trip_witness:
  "\<exists>g. readInput 80 60 (disk ''life.txt'' (join_lines first_column_block)) blank ''life.txt'' =
          Returns (EXIT_SUCCESS, [], g) \<and> g 0 59 \<and> \<not> g 1 59 \<and> g 0 0 \<and> \<not> g 79 0"
proof -
  have "length first_column_block = 60"
    and "\<forall>r\<in>set first_column_block. length r = 80 \<and> set r \<subseteq> cell_chars"
    and "(60::nat) \<le> INT_MAX"
    and "disk ''life.txt'' (join_lines first_column_block) ''life.txt'' = Some (join_lines first_column_block)"
    by (auto simp: first_column_block_def cell_chars_def INT_MAX_def disk_def)
  from readInput_round_trip
    [of first_column_block 60 80 "join_lines first_column_block"
        "disk ''life.txt'' (join_lines first_column_block)" "''life.txt''" blank] this
  obtain g where g: "readInput 80 60 (disk ''life.txt'' (join_lines first_column_block)) blank ''life.txt'' =
          Returns (EXIT_SUCCESS, [], g)"
    and cells: "\<forall>x<80. \<forall>y<60. g x y \<longleftrightarrow> first_column_block ! y ! x = CHR ''#''"
    by blast
  from cells have "g 0 59" "\<not> g 1 59" "g 0 0" "\<not> g 79 0"
    by (simp_all add: first_column_block_def nth_Cons')
  with g show ?thesis by blast
qed


subsection \<open>The cells that are not written\<close>





subsection \<open>A character that is not part of the format\<close>

text \<open>
  Reading a text of \<open>#\<close>, \<open>.\<close> and newlines followed by more text either leaves the
  array on the way, or goes on with the rest from the grid and the position that the
  text alone ends with.
\<close>

lemma read_prefix:
  assumes "set pre \<subseteq> input_chars"
  shows "readInput_loop W H pre x y cells = Undefined \<and>
           readInput_loop W H (pre @ rest) x y cells = Undefined \<or>
         (\<exists>x' y' g. readInput_loop W H pre x y cells = Returns (EXIT_SUCCESS, [], g) \<and>
            readInput_loop W H (pre @ rest) x y cells = readInput_loop W H rest x' y' g)"
  using assms
proof (induction pre arbitrary: x y cells)
  case Nil
  then show ?case by auto
next
  case (Cons c pre)
  then have c: "c = CHR ''#'' \<or> c = CHR ''.'' \<or> c = newline" and pre: "set pre \<subseteq> input_chars"
    by (auto simp: input_chars_def)
  from c show ?case
  proof (elim disjE)
    assume "c = newline"
    then show ?thesis
      using Cons.IH [OF pre, of 0 "Suc y" cells] by (auto simp: newline_def)
  next
    assume "c = CHR ''#''"
    then show ?thesis
      using Cons.IH [OF pre, of "Suc x" y "set_cell cells x y True"] by (auto simp: newline_def)
  next
    assume "c = CHR ''.''"
    then show ?thesis
      using Cons.IH [OF pre, of "Suc x" y "set_cell cells x y False"] by (auto simp: newline_def)
  qed
qed

lemma read_unknown:
  "c \<notin> input_chars \<Longrightarrow> c \<noteq> CHR 0xFF \<Longrightarrow>
   readInput_loop W H (c # rest) x y cells = Returns (EXIT_FAILURE, [Unknown_character c], cells)"
  by (simp add: input_chars_def)

lemma read_FF:
  "readInput_loop W H (CHR 0xFF # rest) x y cells = Returns (EXIT_SUCCESS, [], cells)"
  by simp

lemma read_prefix_unknown:
  assumes "set pre \<subseteq> input_chars" and "c \<notin> input_chars"
  shows "readInput_loop W H pre x y cells = Undefined \<and>
           readInput_loop W H (pre @ c # rest) x y cells = Undefined \<or>
         (\<exists>g. readInput_loop W H pre x y cells = Returns (EXIT_SUCCESS, [], g) \<and>
            readInput_loop W H (pre @ c # rest) x y cells =
              (if c = CHR 0xFF then Returns (EXIT_SUCCESS, [], g)
               else Returns (EXIT_FAILURE, [Unknown_character c], g)))"
  using read_prefix [OF assms(1), of W H x y cells "c # rest"] assms(2)
  by (cases "c = CHR 0xFF") (auto simp: read_unknown read_FF simp del: readInput_loop.simps)




section \<open>\<^verbatim>\<open>main\<close> with a file argument\<close>

lemma c_div_pos: "0 \<le> a \<Longrightarrow> 0 < b \<Longrightarrow> c_div a b = a div b"
  by (cases "a = 0") (simp_all add: c_div_def)

lemma c_mod_pos: "0 \<le> a \<Longrightarrow> 0 < b \<Longrightarrow> c_mod a b = a mod b"
  by (cases "a = 0") (simp_all add: c_mod_def)

lemma valid_config_cells:
  assumes "valid_config cfg"
  shows "0 < N_CELLS_ROW cfg" and "0 < N_CELLS_COL cfg"
proof -
  from assms have pos: "0 < CELL_SIZE cfg" "0 < SCR_WIDTH cfg" "0 < SCR_HEIGHT cfg"
    and dvd: "CELL_SIZE cfg dvd SCR_WIDTH cfg" "CELL_SIZE cfg dvd SCR_HEIGHT cfg"
    by (simp_all add: valid_config_def dvd_eq_mod_eq_0)
  from pos dvd have "CELL_SIZE cfg \<le> SCR_WIDTH cfg" "CELL_SIZE cfg \<le> SCR_HEIGHT cfg"
    by (simp_all add: zdvd_imp_le)
  with pos show "0 < N_CELLS_ROW cfg" and "0 < N_CELLS_COL cfg"
    by (simp_all add: N_CELLS_ROW_def N_CELLS_COL_def c_div_pos pos_imp_zdiv_pos_iff)
qed

lemma valid_config_frames:
  assumes "valid_config cfg"
  shows "0 < FRAMES_PER_ITERATION cfg"
  using assms
  by (simp add: valid_config_def FRAMES_PER_ITERATION_def c_div_pos pos_imp_zdiv_pos_iff)

lemma main_file:
  assumes "valid_config cfg"
  shows "main cfg [prog, name] fs rnd stack inps =
     (case readInput (nat (N_CELLS_ROW cfg)) (nat (N_CELLS_COL cfg)) fs stack name of
        Undefined \<Rightarrow> Undefined_behaviour
      | Returns (status, msgs, cells0) \<Rightarrow>
          if status \<noteq> EXIT_SUCCESS
          then Exited EXIT_FAILURE
                 ([SDL_Init, SDL_CreateWindow (SCR_WIDTH cfg) (SCR_HEIGHT cfg)] @ map Stderr msgs)
          else
            (let s = main_loop cfg inps
                       \<lparr>st_frame = 0, st_cells = cells0, st_quit = False,
                        st_calls = [SDL_Init, SDL_CreateWindow (SCR_WIDTH cfg) (SCR_HEIGHT cfg)] @
                                   map Stderr msgs\<rparr>
             in if st_quit s then Exited EXIT_SUCCESS (st_calls s) else Still_running (st_calls s)))"
proof -
  from assms have "CELL_SIZE cfg \<noteq> 0" "SIMULATION_FPS cfg \<noteq> 0"
    "c_mod (SCR_WIDTH cfg) (CELL_SIZE cfg) = 0" "c_mod (SCR_HEIGHT cfg) (CELL_SIZE cfg) = 0"
    by (simp_all add: valid_config_def c_mod_pos)
  moreover from valid_config_frames [OF assms] have "FRAMES_PER_ITERATION cfg \<noteq> 0"
    by simp
  moreover from valid_config_cells [OF assms] have "\<not> N_CELLS_ROW cfg \<le> 0" "\<not> N_CELLS_COL cfg \<le> 0"
    by simp_all
  ultimately show ?thesis
    by (simp add: main_def Let_def)
qed

lemma valid_source_config: "valid_config source_config"
  by (simp add: valid_config_def source_config_def)

lemma source_cells: "nat (N_CELLS_ROW source_config) = 80" "nat (N_CELLS_COL source_config) = 60"
  by (simp_all add: N_CELLS_ROW_def N_CELLS_COL_def source_config_def c_div_def)




text \<open>
  C6, as amended. Let the configuration be valid and let the input file contain a
  character that is not \<open>#\<close>, \<open>.\<close> or newline; let \<open>c\<close> be the first such character,
  let \<open>c\<close> not be the byte \<open>0xFF\<close>, and let the text before \<open>c\<close> be read without a
  write outside the array. Then \<^verbatim>\<open>readInput\<close> reports \<open>c\<close> and returns \<^verbatim>\<open>EXIT_FAILURE\<close>,
  and \<^verbatim>\<open>main\<close>, called with the file's name, exits with \<^verbatim>\<open>EXIT_FAILURE\<close> after opening
  the window, without a single frame: nothing is drawn.
\<close>

theorem main_parse_error:
  assumes "valid_config cfg"
    and "fs name = Some (pre @ c # rest)"
    and "set pre \<subseteq> input_chars" and "c \<notin> input_chars" and "c \<noteq> CHR 0xFF"
    and "readInput (nat (N_CELLS_ROW cfg)) (nat (N_CELLS_COL cfg)) (disk name pre) stack name \<noteq> Undefined"
  shows "(\<exists>g. readInput (nat (N_CELLS_ROW cfg)) (nat (N_CELLS_COL cfg)) fs stack name =
                Returns (EXIT_FAILURE, [Unknown_character c], g)) \<and>
         main cfg [prog, name] fs rnd stack inps =
           Exited EXIT_FAILURE
             [SDL_Init, SDL_CreateWindow (SCR_WIDTH cfg) (SCR_HEIGHT cfg), Stderr (Unknown_character c)]"
proof -
  let ?W = "nat (N_CELLS_ROW cfg)" and ?H = "nat (N_CELLS_COL cfg)"
  from read_prefix_unknown [OF assms(3,4), of ?W ?H 0 0 stack rest] assms(2,5,6)
  obtain g where "readInput ?W ?H fs stack name = Returns (EXIT_FAILURE, [Unknown_character c], g)"
    by (auto simp: readInput_def disk_def)
  then show ?thesis
    by (simp add: main_file [OF assms(1)])
qed

theorem main_parse_error_witness:
  "valid_config source_config \<and>
   disk ''life.txt'' cell_then_letter ''life.txt'' = Some (''#'' @ CHR ''x'' # []) \<and>
   readInput 80 60 (disk ''life.txt'' ''#'') blank ''life.txt'' = Returns (EXIT_SUCCESS, [], set_cell blank 0 0 True) \<and>
   main source_config [''gameoflife'', ''life.txt''] (disk ''life.txt'' cell_then_letter) no_rand blank [quit_frame] =
     Exited EXIT_FAILURE [SDL_Init, SDL_CreateWindow 640 480, Stderr (Unknown_character (CHR ''x''))]"
proof -
  have content: "disk ''life.txt'' cell_then_letter ''life.txt'' = Some (''#'' @ CHR ''x'' # [])"
    by (simp add: disk_def cell_then_letter_def)
  have chars: "set ''#'' \<subseteq> input_chars" "CHR ''x'' \<notin> input_chars" "CHR ''x'' \<noteq> CHR 0xFF"
    by (simp_all add: input_chars_def newline_def)
  have pre: "readInput 80 60 (disk ''life.txt'' ''#'') blank ''life.txt'' = Returns (EXIT_SUCCESS, [], set_cell blank 0 0 True)"
    by (simp add: readInput_def disk_def newline_def)
  then have "readInput (nat (N_CELLS_ROW source_config)) (nat (N_CELLS_COL source_config))
               (disk ''life.txt'' ''#'') blank ''life.txt'' \<noteq> Undefined"
    by (simp add: source_cells)
  from main_parse_error
    [where cfg = source_config and fs = "disk ''life.txt'' cell_then_letter" and name = "''life.txt''"
       and pre = "''#''" and c = "CHR ''x''" and rest = "[]" and stack = blank
       and prog = "''gameoflife''" and rnd = no_rand and inps = "[quit_frame]",
     OF valid_source_config content chars this]
  have "main source_config [''gameoflife'', ''life.txt''] (disk ''life.txt'' cell_then_letter) no_rand blank [quit_frame] =
     Exited EXIT_FAILURE [SDL_Init, SDL_CreateWindow 640 480, Stderr (Unknown_character (CHR ''x''))]"
    by (simp add: source_config_def)
  with valid_source_config content pre show ?thesis by simp
qed

text \<open>
  A line with more cells than a row of the grid has columns runs into a write outside
  the array.
\<close>

lemma read_long_line:
  "x \<le> W \<Longrightarrow> W < x + n \<Longrightarrow> readInput_loop W H (replicate n (CHR ''#'') @ rest) x y cells = Undefined"
proof (induction n arbitrary: x cells)
  case 0
  then show ?case by simp
next
  case (Suc n)
  then show ?case by (cases "x < W") (simp_all add: newline_def)
qed

lemma drawScreen_blank: "drawScreen cs W H blank = []"
  by (simp add: drawScreen_def blank_def)

text \<open>
  C6 as it is stated fails. A file that holds the single byte \<open>0xFF\<close>, which is none of
  \<open>#\<close>, \<open>.\<close> and newline, is read as an empty file: \<^verbatim>\<open>readInput\<close> returns
  \<^verbatim>\<open>EXIT_SUCCESS\<close> and \<^verbatim>\<open>main\<close> enters its loop, draws, and exits with \<^verbatim>\<open>EXIT_SUCCESS\<close>
  when the window is closed. And a file with a line of 81 cells before its letter has
  no defined result at the source's 80 columns.
\<close>

theorem main_parse_error_counterexample:
  "readInput 80 60 (disk ''life.txt'' byte_FF) blank ''life.txt'' = Returns (EXIT_SUCCESS, [], blank) \<and>
   main source_config [''gameoflife'', ''life.txt''] (disk ''life.txt'' byte_FF) no_rand blank [quit_frame] =
     Exited EXIT_SUCCESS [SDL_Init, SDL_CreateWindow 640 480, DrawScreen [], UpdateCells, SDL_Delay 4] \<and>
   readInput 80 60 (disk ''life.txt'' long_line_then_letter) blank ''life.txt'' = Undefined"
proof -
  have ff: "readInput 80 60 (disk ''life.txt'' byte_FF) blank ''life.txt'' = Returns (EXIT_SUCCESS, [], blank)"
    by (simp add: readInput_def disk_def byte_FF_def)
  have delay: "frame_delay (FPS source_config) (ticks_end quit_frame - ticks_start quit_frame) = 4"
    by (simp add: frame_delay_def source_config_def quit_frame_def c_div_def)
  have "main source_config [''gameoflife'', ''life.txt''] (disk ''life.txt'' byte_FF) no_rand blank [quit_frame] =
     Exited EXIT_SUCCESS [SDL_Init, SDL_CreateWindow 640 480, DrawScreen [], UpdateCells, SDL_Delay 4]"
    using ff delay
    by (simp add: main_file [OF valid_source_config] source_cells frame_body_def Let_def
        drawScreen_blank poll_events_def)
      (simp add: source_config_def quit_frame_def)
  moreover have "readInput 80 60 (disk ''life.txt'' long_line_then_letter) blank ''life.txt'' = Undefined"
    by (simp add: readInput_def disk_def long_line_then_letter_def read_long_line)
  ultimately show ?thesis using ff by simp
qed

section \<open>The main loop\<close>

subsection \<open>Frames and simulation steps\<close>

lemma poll_events_iff: "poll_events evs q \<longleftrightarrow> q \<or> list_ex wants_quit evs"
  unfolding poll_events_def by (induction evs arbitrary: q) auto

text \<open>
  Running the loop on the inputs of some frames and then on those of further frames is
  running it on all of them: once \<open>quit\<close> is set, no further frame runs.
\<close>

lemma main_loop_append: "main_loop cfg (xs @ ys) s = main_loop cfg ys (main_loop cfg xs s)"
proof (induction xs arbitrary: s)
  case Nil
  then show ?case by simp
next
  case (Cons x xs)
  then show ?case by (cases ys) auto
qed

lemma loop_calls_snoc:
  "loop_calls cfg cells0 k (xs @ [x]) = loop_calls cfg cells0 k xs @ frame_calls cfg cells0 (k + length xs) x"
  by (induction xs arbitrary: k) auto

lemma frame_counter_step:
  assumes "0 < FRAMES_PER_ITERATION cfg"
  shows "c_mod (int (n mod period cfg) + 1) (FRAMES_PER_ITERATION cfg) = int (Suc n mod period cfg)"
proof -
  let ?N = "FRAMES_PER_ITERATION cfg"
  have N: "int (period cfg) = ?N"
    using assms by (simp add: period_def)
  have "c_mod (int (n mod period cfg) + 1) ?N = (int (n mod period cfg) + 1) mod ?N"
    using assms by (simp add: c_mod_pos)
  also have "\<dots> = int ((n mod period cfg + 1) mod period cfg)"
    by (simp add: N [symmetric] zmod_int add.commute)
  also have "(n mod period cfg + 1) mod period cfg = Suc n mod period cfg"
    by (simp add: mod_Suc_eq)
  finally show ?thesis .
qed

lemma frame_body_at:
  assumes "0 < FRAMES_PER_ITERATION cfg"
  shows "frame_body cfg inp
           \<lparr>st_frame = int (n mod period cfg), st_cells = generation cfg cells0 n, st_quit = False,
            st_calls = cs\<rparr> =
         \<lparr>st_frame = int (n mod period cfg), st_cells = generation cfg cells0 (Suc n),
          st_quit = sees_quit inp, st_calls = cs @ frame_calls cfg cells0 n inp\<rparr>"
  by (simp add: frame_body_def Let_def poll_events_iff sees_quit_def frame_calls_def)

lemma main_loop_run:
  assumes N: "0 < FRAMES_PER_ITERATION cfg"
    and quiet: "\<forall>inp\<in>set (butlast inps). \<not> sees_quit inp"
  shows "main_loop cfg inps \<lparr>st_frame = 0, st_cells = cells0, st_quit = False, st_calls = cs\<rparr> =
         \<lparr>st_frame = int (length inps mod period cfg),
          st_cells = generation cfg cells0 (length inps),
          st_quit = (inps \<noteq> [] \<and> sees_quit (last inps)),
          st_calls = cs @ loop_calls cfg cells0 0 inps\<rparr>"
  using quiet
proof (induction inps rule: rev_induct)
  case Nil
  then show ?case by simp
next
  case (snoc x xs)
  then have xs: "\<forall>inp\<in>set xs. \<not> sees_quit inp"
    by simp
  then have "\<forall>inp\<in>set (butlast xs). \<not> sees_quit inp"
    by (auto dest: in_set_butlastD)
  from snoc.IH [OF this] xs
  have before: "main_loop cfg xs \<lparr>st_frame = 0, st_cells = cells0, st_quit = False, st_calls = cs\<rparr> =
         \<lparr>st_frame = int (length xs mod period cfg), st_cells = generation cfg cells0 (length xs),
          st_quit = False, st_calls = cs @ loop_calls cfg cells0 0 xs\<rparr>"
    by (cases "xs = []") auto
  show ?case
    by (simp add: main_loop_append before frame_body_at [OF N] frame_counter_step [OF N]
        loop_calls_snoc del: generation.simps)
qed

lemma draws_frame: "length (filter is_DrawScreen (frame_calls cfg cells0 k inp)) = 1"
  by (simp add: frame_calls_def)

lemma draws_loop: "length (filter is_DrawScreen (loop_calls cfg cells0 k inps)) = length inps"
  by (induction inps arbitrary: k) (simp_all add: draws_frame)

lemma updates_frame:
  "count_list (frame_calls cfg cells0 k inp) UpdateCells = (if k mod period cfg = 0 then 1 else 0)"
  by (simp add: frame_calls_def)

text \<open>The number of multiples of \<open>N\<close> below \<open>n\<close> is \<open>n / N\<close> rounded up.\<close>

lemma div_multiple_plus: "r < N \<Longrightarrow> (k * N + r) div N = (k::nat)"
  by simp

lemma ceil_div_step:
  assumes "0 < (N::nat)"
  shows "(Suc n + N - 1) div N = (n + N - 1) div N + (if n mod N = 0 then 1 else 0)"
proof -
  define q r where "q = n div N" and "r = n mod N"
  then have n: "n = q * N + r" and r: "r < N"
    using assms by simp_all
  show ?thesis
  proof (cases "r = 0")
    case True
    have a: "Suc n + N - 1 = (q + 1) * N + 0" and b: "n + N - 1 = q * N + (N - 1)"
      using n True assms by simp_all
    have "(Suc n + N - 1) div N = q + 1"
      unfolding a using assms by (rule div_multiple_plus)
    moreover have "(n + N - 1) div N = q"
      unfolding b by (rule div_multiple_plus) (use assms in simp)
    ultimately show ?thesis
      using True r_def by simp
  next
    case False
    have a: "Suc n + N - 1 = (q + 1) * N + r" and b: "n + N - 1 = (q + 1) * N + (r - 1)"
      using n False by simp_all
    have "(Suc n + N - 1) div N = q + 1"
      unfolding a using r by (rule div_multiple_plus)
    moreover have "(n + N - 1) div N = q + 1"
      unfolding b by (rule div_multiple_plus) (use r in simp)
    ultimately show ?thesis
      using False r_def by simp
  qed
qed

lemma updates_loop:
  assumes "0 < period cfg"
  shows "count_list (loop_calls cfg cells0 0 inps) UpdateCells = (length inps + period cfg - 1) div period cfg"
proof (induction inps rule: rev_induct)
  case Nil
  then show ?case using assms by simp
next
  case (snoc x xs)
  then show ?case
    using ceil_div_step [OF assms, of "length xs"]
    by (simp add: loop_calls_snoc updates_frame)
qed


text \<open>
  C5. Let \<^verbatim>\<open>FRAMES_PER_ITERATION\<close>, which is \<^verbatim>\<open>FPS / SIMULATION_FPS\<close>, be positive, call it
  \<open>N\<close>, and let the loop run on the inputs of any number \<open>n\<close> of frames, none of which
  before the last brings a quit event. Then all \<open>n\<close> frames run; the frame counter is
  \<open>k mod N\<close> on entry to frame \<open>k\<close> and \<open>n mod N\<close> at the end; every frame calls
  \<^verbatim>\<open>drawScreen\<close> once, on the grid of its generation; \<^verbatim>\<open>updateCells\<close> is called in exactly
  the frames \<open>k\<close> with \<open>k mod N = 0\<close>, where the counter is 0 on entry; so among \<open>n\<close>
  frames it is called \<open>n / N\<close> times, rounded up: once per \<open>N\<close> rendered frames. The loop
  ends after the frame that sees a quit event.
\<close>

theorem main_loop_schedule:
  assumes "0 < FRAMES_PER_ITERATION cfg"
    and "\<forall>inp\<in>set (butlast inps). \<not> sees_quit inp"
  shows "main_loop cfg inps \<lparr>st_frame = 0, st_cells = cells0, st_quit = False, st_calls = cs\<rparr> =
           \<lparr>st_frame = int (length inps mod period cfg),
            st_cells = generation cfg cells0 (length inps),
            st_quit = (inps \<noteq> [] \<and> sees_quit (last inps)),
            st_calls = cs @ loop_calls cfg cells0 0 inps\<rparr> \<and>
         length (filter is_DrawScreen (loop_calls cfg cells0 0 inps)) = length inps \<and>
         count_list (loop_calls cfg cells0 0 inps) UpdateCells =
           (length inps + period cfg - 1) div period cfg"
proof -
  from assms(1) have "0 < period cfg"
    by (simp add: period_def)
  then show ?thesis
    using main_loop_run [OF assms] by (simp add: draws_loop updates_loop)
qed

lemma period_source: "period source_config = 12"
  by (simp add: period_def FRAMES_PER_ITERATION_def source_config_def c_div_def)

theorem main_loop_schedule_witness:
  "0 < FRAMES_PER_ITERATION source_config \<and> period source_config = 12 \<and> length short_run = 25 \<and>
   st_frame (main_loop source_config short_run
               \<lparr>st_frame = 0, st_cells = blank, st_quit = False, st_calls = []\<rparr>) = 1 \<and>
   st_quit (main_loop source_config short_run
               \<lparr>st_frame = 0, st_cells = blank, st_quit = False, st_calls = []\<rparr>) \<and>
   length (filter is_DrawScreen (loop_calls source_config blank 0 short_run)) = 25 \<and>
   count_list (loop_calls source_config blank 0 short_run) UpdateCells = 3"
proof -
  have N: "0 < FRAMES_PER_ITERATION source_config"
    by (simp add: FRAMES_PER_ITERATION_def source_config_def c_div_def)
  have quiet: "\<forall>inp\<in>set (butlast short_run). \<not> sees_quit inp"
    by (simp add: short_run_def sees_quit_def idle_frame_def)
  have run: "length short_run = 25" "short_run \<noteq> []" "sees_quit (last short_run)"
    by (simp_all add: short_run_def sees_quit_def quit_frame_def)
  from main_loop_schedule [OF N quiet, of blank "[]"] N run show ?thesis
    by (simp add: period_source)
qed

subsection \<open>The delay at the end of a frame\<close>

lemma uint_frame_delay:
  assumes "0 < fps"
  shows "uint (frame_delay fps t) = max 0 (1000 div fps - uint t)"
proof -
  let ?T = "1000 div fps"
  have range: "0 \<le> ?T" "?T \<le> 1000"
    using assms int_div_le_self [of 1000 fps] by (simp_all add: pos_imp_zdiv_nonneg_iff)
  then have T: "uint (word_of_int ?T :: 32 word) = ?T"
    by (simp add: uint_word_of_int)
  show ?thesis
  proof (cases "word_of_int ?T < t")
    case True
    then have "?T < uint t"
      by (simp add: word_less_def T)
    with True show ?thesis
      using assms by (simp add: frame_delay_def c_div_pos)
  next
    case False
    then have le: "uint t \<le> uint (word_of_int ?T :: 32 word)"
      by (simp add: word_less_def)
    then have "uint (word_of_int ?T - t) = uint (word_of_int ?T :: 32 word) - uint t"
      by (simp add: uint_sub_lem)
    with False le show ?thesis
      using assms by (simp add: frame_delay_def c_div_pos T)
  qed
qed

text \<open>
  C9. With a positive \<^verbatim>\<open>FPS\<close>, the last thing a frame does is to call \<^verbatim>\<open>SDL_Delay\<close>, and
  the delay is \<open>max 0 (T - elapsed)\<close> milliseconds, where \<open>T\<close> is \<^verbatim>\<open>1000 / FPS\<close> in the
  integer division of C and \<open>elapsed\<close> is the difference of the two readings of
  \<^verbatim>\<open>SDL_GetTicks\<close> as a \<^verbatim>\<open>Uint32\<close>: no delay when the frame took longer than \<open>T\<close>, the
  rest of \<open>T\<close> otherwise. Nothing else depends on the time a frame took.
\<close>

theorem frame_ends_with_delay:
  assumes "0 < FPS cfg"
  shows "last (st_calls (frame_body cfg inp s)) =
           SDL_Delay (frame_delay (FPS cfg) (ticks_end inp - ticks_start inp)) \<and>
         uint (frame_delay (FPS cfg) (ticks_end inp - ticks_start inp)) =
           max 0 (1000 div FPS cfg - uint (ticks_end inp - ticks_start inp))"
  using assms by (simp add: frame_body_def Let_def uint_frame_delay)

theorem frame_ends_with_delay_witness:
  "0 < FPS source_config \<and> 1000 div FPS source_config = 4 \<and>
   uint (ticks_end idle_frame - ticks_start idle_frame) = 1 \<and>
   uint (frame_delay (FPS source_config) (ticks_end idle_frame - ticks_start idle_frame)) = 3 \<and>
   uint (ticks_end slow_frame - ticks_start slow_frame) = 10 \<and>
   uint (frame_delay (FPS source_config) (ticks_end slow_frame - ticks_start slow_frame)) = 0"
proof -
  have fps: "0 < FPS source_config" "1000 div FPS source_config = 4"
    by (simp_all add: source_config_def)
  have elapsed: "uint (ticks_end idle_frame - ticks_start idle_frame) = 1"
    "uint (ticks_end slow_frame - ticks_start slow_frame) = 10"
    by (simp_all add: idle_frame_def slow_frame_def)
  from frame_ends_with_delay [OF fps(1), of idle_frame] frame_ends_with_delay [OF fps(1), of slow_frame]
    fps elapsed
  show ?thesis by simp
qed

end
